theory Spec2Isabelle
  imports Complex_Main "HOL-Library.AList"
begin

section \<open>Parsed JSON values and Python exceptions\<close>

text \<open>
  Every function of \<^verbatim>\<open>update_config.py\<close> first turns its argument into the value that
  \<^verbatim>\<open>json.load\<close> returns; the embedding starts from that value. A JSON object is a Python
  \<^verbatim>\<open>dict\<close>: an association list in insertion order, read with \<open>map_of\<close> and written with
  \<open>AList.update\<close> (an existing key keeps its place, a new key goes to the end). A JSON float
  is carried as the rational number it denotes; the merge functions never compute on it.
\<close>

datatype json =
    JNull
  | JBool bool
  | JInt int
  | JFloat rat
  | JStr string
  | JArr "json list"
  | JObj "(string \<times> json) list"

datatype pyerr =
    KeyError
  | IndexError
  | TypeError
  | AttributeError
  | ValueError
  | UnboundLocalError
  | ZeroDivisionError

text \<open>A computation that may raise: \<open>Inl\<close> is the exception, \<open>Inr\<close> the value.\<close>

definition bind_r :: "pyerr + 'a \<Rightarrow> ('a \<Rightarrow> pyerr + 'b) \<Rightarrow> pyerr + 'b" where
  "bind_r m f = (case m of Inl e \<Rightarrow> Inl e | Inr x \<Rightarrow> f x)"

text \<open>A \<^verbatim>\<open>for\<close> loop over a list whose body may raise; the state is what the body mutates.\<close>

fun for_each :: "('s \<Rightarrow> 'a \<Rightarrow> pyerr + 's) \<Rightarrow> 'a list \<Rightarrow> 's \<Rightarrow> pyerr + 's" where
  "for_each body [] s = Inr s"
| "for_each body (x # xs) s = bind_r (body s x) (for_each body xs)"

text \<open>Python truthiness of a parsed JSON value (\<^verbatim>\<open>if event_type:\<close>).\<close>

fun truthy :: "json \<Rightarrow> bool" where
  "truthy JNull = False"
| "truthy (JBool b) = b"
| "truthy (JInt i) = (i \<noteq> 0)"
| "truthy (JFloat q) = (q \<noteq> 0)"
| "truthy (JStr s) = (s \<noteq> [])"
| "truthy (JArr xs) = (xs \<noteq> [])"
| "truthy (JObj al) = (al \<noteq> [])"

text \<open>
  Python \<^verbatim>\<open>==\<close> on parsed JSON: booleans, integers and floats compare by numeric value
  (\<^verbatim>\<open>True == 1 == 1.0\<close>), lists elementwise, dicts as mappings whatever the key order.
\<close>

fun num_val :: "json \<Rightarrow> rat option" where
  "num_val (JBool b) = Some (if b then 1 else 0)"
| "num_val (JInt i) = Some (of_int i)"
| "num_val (JFloat q) = Some q"
| "num_val _ = None"

fun py_eq :: "json \<Rightarrow> json \<Rightarrow> bool" where
  "py_eq (JArr xs) b = (case b of JArr ys \<Rightarrow> list_all2 py_eq xs ys | _ \<Rightarrow> False)"
| "py_eq (JObj al) b =
     (case b of
        JObj bl \<Rightarrow> length al = length bl \<and>
          (\<forall>(k, v) \<in> set al. case map_of bl k of None \<Rightarrow> False | Some w \<Rightarrow> py_eq v w)
      | _ \<Rightarrow> False)"
| "py_eq (JStr s) b = (b = JStr s)"
| "py_eq JNull b = (b = JNull)"
| "py_eq a b = (case num_val b of None \<Rightarrow> False | Some y \<Rightarrow> num_val a = Some y)"

text \<open>\<^verbatim>\<open>x in xs\<close> for a Python list \<open>xs\<close>.\<close>

definition py_in :: "json \<Rightarrow> json list \<Rightarrow> bool" where
  "py_in x xs = (\<exists>y \<in> set xs. py_eq y x)"

text \<open>Lists and dicts are unhashable: using one as a dict key raises \<^verbatim>\<open>TypeError\<close>.\<close>

fun hashable :: "json \<Rightarrow> bool" where
  "hashable (JArr xs) = False"
| "hashable (JObj al) = False"
| "hashable j = True"

text \<open>\<^verbatim>\<open>d.get(k, default)\<close>: only a dict has the method.\<close>

fun dict_get :: "json \<Rightarrow> string \<Rightarrow> json \<Rightarrow> pyerr + json" where
  "dict_get (JObj al) k dflt = Inr (case map_of al k of None \<Rightarrow> dflt | Some v \<Rightarrow> v)"
| "dict_get j k dflt = Inl AttributeError"

text \<open>\<^verbatim>\<open>x[0]\<close> and \<^verbatim>\<open>x["key"]\<close> on a parsed JSON value.\<close>

fun index0 :: "json \<Rightarrow> pyerr + json" where
  "index0 (JArr []) = Inl IndexError"
| "index0 (JArr (x # xs)) = Inr x"
| "index0 (JStr []) = Inl IndexError"
| "index0 (JStr (c # cs)) = Inr (JStr [c])"
| "index0 (JObj al) = Inl KeyError"
| "index0 j = Inl TypeError"

fun getitem :: "string \<Rightarrow> json \<Rightarrow> pyerr + json" where
  "getitem k (JObj al) = (case map_of al k of None \<Rightarrow> Inl KeyError | Some v \<Rightarrow> Inr v)"
| "getitem k j = Inl TypeError"

text \<open>\<^verbatim>\<open>for x in v\<close>: a list yields its elements, a dict its keys, a string its characters.\<close>

fun py_iter :: "json \<Rightarrow> pyerr + json list" where
  "py_iter (JArr xs) = Inr xs"
| "py_iter (JObj al) = Inr (map (\<lambda>p. JStr (fst p)) al)"
| "py_iter (JStr s) = Inr (map (\<lambda>c. JStr [c]) s)"
| "py_iter j = Inl TypeError"

section \<open>The paths into the document\<close>

text \<open>
  \<^verbatim>\<open>json_data["sites"][0]['fields'][0]['rotations'][0]['events']\<close> is the path of a bare
  document, \<^verbatim>\<open>json_data[0]["sites"]...\<close> the path of a document wrapped in a list. A path
  is a list of subscripts, each a string key or the index 0.
\<close>

datatype step = Key string | Idx0

fun step_get :: "step \<Rightarrow> json \<Rightarrow> pyerr + json" where
  "step_get (Key k) j = getitem k j"
| "step_get Idx0 j = index0 j"

fun get_path :: "step list \<Rightarrow> json \<Rightarrow> pyerr + json" where
  "get_path [] j = Inr j"
| "get_path (s # p) j = bind_r (step_get s j) (get_path p)"

text \<open>
  The source mutates the object it reached; the document that holds it changes with it. In
  the embedding the new object is put back along the path that reached it.
\<close>

fun put_path :: "step list \<Rightarrow> json \<Rightarrow> json \<Rightarrow> json" where
  "put_path [] j v = v"
| "put_path (Key k # p) (JObj al) v =
     (case map_of al k of None \<Rightarrow> JObj al
      | Some x \<Rightarrow> JObj (AList.update k (put_path p x v) al))"
| "put_path (Idx0 # p) (JArr (x # xs)) v = JArr (put_path p x v # xs)"
| "put_path p j v = j"

definition events_path :: "step list" where
  "events_path =
     [Key ''sites'', Idx0, Key ''fields'', Idx0, Key ''rotations'', Idx0, Key ''events'']"

definition soil_path :: "step list" where
  "soil_path = [Key ''sites'', Idx0, Key ''fields'', Idx0, Key ''soil'']"

text \<open>The \<^verbatim>\<open>try\<close>/\<^verbatim>\<open>except\<close> of the source: the wrapped path first, the bare path on any
  exception. The result names the path that resolved and the object found there.\<close>

definition locate :: "step list \<Rightarrow> json \<Rightarrow> pyerr + (step list \<times> json)" where
  "locate p j =
     (case get_path (Idx0 # p) j of
        Inr v \<Rightarrow> Inr (Idx0 # p, v)
      | Inl e \<Rightarrow> bind_r (get_path p j) (\<lambda>v. Inr (p, v)))"

definition unwrapped_events :: "json \<Rightarrow> pyerr + json" where
  "unwrapped_events j = get_path events_path j"

definition wrapped_events :: "json \<Rightarrow> pyerr + json" where
  "wrapped_events j = get_path (Idx0 # events_path) j"

definition find_events :: "json \<Rightarrow> pyerr + json" where
  "find_events j = bind_r (locate events_path j) (\<lambda>r. Inr (snd r))"

definition find_soil :: "json \<Rightarrow> pyerr + json" where
  "find_soil j = bind_r (locate soil_path j) (\<lambda>r. Inr (snd r))"

section \<open>Event List Extractor\<close>

record extract_state =
  crop_names :: "json list"
  data :: "json list"
  data_full :: "json list"
  other_events :: "json list"

definition extract_step :: "extract_state \<Rightarrow> json \<Rightarrow> pyerr + extract_state" where
  "extract_step s event =
     bind_r (dict_get event ''_event_type'' JNull) (\<lambda>event_type.
       if truthy event_type then
         bind_r
           (if py_eq event_type (JStr ''crop'') then
              bind_r (dict_get event ''name'' (JStr [])) (\<lambda>crop.
                if \<not> py_in crop (crop_names s)
                then Inr (s\<lparr>crop_names := crop_names s @ [crop], data := data s @ [event]\<rparr>)
                else Inr s)
            else
              (if \<not> py_in event_type (other_events s)
               then Inr (s\<lparr>other_events := other_events s @ [event_type],
                            data := data s @ [event]\<rparr>)
               else Inr s))
           (\<lambda>s'. Inr (s'\<lparr>data_full := data_full s' @ [event]\<rparr>))
       else Inr s)"

text \<open>\<^verbatim>\<open>list(dict.fromkeys(xs))\<close>: the keys are hashed, equal keys collapse onto the first.\<close>

fun fromkeys :: "json list \<Rightarrow> json list \<Rightarrow> pyerr + json list" where
  "fromkeys seen [] = Inr seen"
| "fromkeys seen (x # xs) =
     (if \<not> hashable x then Inl TypeError
      else if py_in x seen then fromkeys seen xs
      else fromkeys (seen @ [x]) xs)"

definition extract_events ::
  "json \<Rightarrow> pyerr + (json list \<times> json list \<times> json list \<times> json list)" where
  "extract_events events =
     bind_r (py_iter events) (\<lambda>evs.
     bind_r (for_each extract_step evs
               \<lparr>crop_names = [], data = [], data_full = [], other_events = []\<rparr>) (\<lambda>s.
     bind_r (fromkeys [] (crop_names s)) (\<lambda>cn.
     bind_r (fromkeys [] (other_events s)) (\<lambda>oe.
       Inr (data s, cn, oe, data_full s)))))"

text \<open>The result is the tuple \<^verbatim>\<open>data, crop_names, other_events, data_full\<close> of the source.\<close>

definition input_config_list ::
  "json \<Rightarrow> pyerr + (json list \<times> json list \<times> json list \<times> json list)" where
  "input_config_list json_data = bind_r (find_events json_data) extract_events"

subsection \<open>What the extractor is compared with\<close>

text \<open>
  The type and the crop name of a record as the loop reads them: \<^verbatim>\<open>event.get('_event_type',
  None)\<close> and \<^verbatim>\<open>event.get('name', '')\<close>. A record is typed when its \<^verbatim>\<open>_event_type\<close> is
  present and truthy; a crop record is one whose type is the string \<^verbatim>\<open>crop\<close>.
\<close>

definition etype :: "json \<Rightarrow> json" where
  "etype e = (case dict_get e ''_event_type'' JNull of Inr t \<Rightarrow> t | Inl x \<Rightarrow> JNull)"

definition cname :: "json \<Rightarrow> json" where
  "cname e = (case dict_get e ''name'' (JStr []) of Inr n \<Rightarrow> n | Inl x \<Rightarrow> JStr [])"

definition typed :: "json \<Rightarrow> bool" where
  "typed e = truthy (etype e)"

definition is_crop :: "json \<Rightarrow> bool" where
  "is_crop e = (etype e = JStr ''crop'')"

definition is_other :: "json \<Rightarrow> bool" where
  "is_other e = (typed e \<and> \<not> is_crop e)"

text \<open>Two records compete for one place in the filtered list: two crops of one name, or two
  other records of one type.\<close>

definition same_key :: "json \<Rightarrow> json \<Rightarrow> bool" where
  "same_key a b =
     (if is_crop a then is_crop b \<and> py_eq (cname a) (cname b)
      else \<not> is_crop b \<and> py_eq (etype a) (etype b))"

text \<open>Keeping first occurrences: the head stays, everything equal to it leaves the rest.\<close>

fun first_seen_by :: "('a \<Rightarrow> 'a \<Rightarrow> bool) \<Rightarrow> 'a list \<Rightarrow> 'a list" where
  "first_seen_by eq [] = []"
| "first_seen_by eq (x # xs) = x # first_seen_by eq (filter (\<lambda>y. \<not> eq x y) xs)"

definition key_seen :: "extract_state \<Rightarrow> json \<Rightarrow> bool" where
  "key_seen s e =
     (if is_crop e then py_in (cname e) (crop_names s) else py_in (etype e) (other_events s))"


text \<open>A bare document whose events entry is \<open>events\<close>, for concrete runs.\<close>

definition doc_of :: "json \<Rightarrow> json" where
  "doc_of events =
     JObj [(''sites'', JArr [JObj [(''fields'', JArr [JObj [(''rotations'',
       JArr [JObj [(''events'', events)]])]])]])]"

definition crop_A :: json where
  "crop_A = JObj [(''_event_type'', JStr ''crop''), (''name'', JStr ''A''), (''tdd'', JInt 1200)]"

definition crop_A2 :: json where
  "crop_A2 = JObj [(''_event_type'', JStr ''crop''), (''name'', JStr ''A''), (''tdd'', JInt 900)]"

definition crop_B :: json where
  "crop_B = JObj [(''_event_type'', JStr ''crop''), (''name'', JStr ''B''), (''tdd'', JInt 3000)]"

definition irrigation :: json where
  "irrigation = JObj [(''_event_type'', JStr ''autoirrigation''), (''method'', JStr ''drip'')]"

definition irrigation2 :: json where
  "irrigation2 = JObj [(''_event_type'', JStr ''autoirrigation''), (''method'', JStr ''furrow'')]"

definition untyped_record :: json where
  "untyped_record = JObj [(''name'', JStr ''x'')]"

text \<open>A bare document with nothing but a soil record, for concrete runs.\<close>

definition soil_doc :: "json \<Rightarrow> json" where
  "soil_doc soil = JObj [(''sites'', JArr [JObj [(''fields'', JArr [JObj [(''soil'', soil)]])]])]"

section \<open>Soil merge\<close>

text \<open>
  \<^verbatim>\<open>for key in soil_data.keys(): if key in soil_dict: soil_data[key] = soil_dict[key]\<close>.
  The overlay \<open>soil_dict\<close> is a dict keyed by strings.
\<close>

definition soil_step ::
  "(string \<times> json) list \<Rightarrow> (string \<times> json) list \<Rightarrow> string \<Rightarrow> (string \<times> json) list" where
  "soil_step soil_dict soil_data key =
     (case map_of soil_dict key of
        Some v \<Rightarrow> AList.update key v soil_data
      | None \<Rightarrow> soil_data)"

text \<open>The result is the document that the source writes to \<^verbatim>\<open>json_out\<close>, or returns when
  no file is asked for.\<close>

definition soil_config_replacement :: "(string \<times> json) list \<Rightarrow> json \<Rightarrow> pyerr + json" where
  "soil_config_replacement soil_dict json_data =
     bind_r (locate soil_path json_data) (\<lambda>(p, soil_data).
       case soil_data of
         JObj al \<Rightarrow>
           Inr (put_path p json_data (JObj (foldl (soil_step soil_dict) al (map fst al))))
       | _ \<Rightarrow> Inl AttributeError)"

text \<open>A path whose last subscript is a key never ends inside a string.\<close>

definition ends_key :: "step list \<Rightarrow> bool" where
  "ends_key p = (p = [] \<or> (\<exists>k. last p = Key k))"

section \<open>Event merge\<close>








subsection \<open>What the merge is compared with\<close>

text \<open>Python dicts have no two equal keys; the association lists that stand for them are
  to have none either.\<close>

fun wf_json :: "json \<Rightarrow> bool" where
  "wf_json (JArr xs) = (\<forall>x \<in> set xs. wf_json x)"
| "wf_json (JObj al) = (distinct (map fst al) \<and> (\<forall>(k, v) \<in> set al. wf_json v))"
| "wf_json j = True"













section \<open>Auto-Fertilization Generator\<close>

text \<open>
  The years go through text: \<^verbatim>\<open>f"{year}-01-01"\<close>, then \<^verbatim>\<open>split("-")\<close>, then \<^verbatim>\<open>int\<close>.
  \<open>str_int\<close> is \<^verbatim>\<open>str\<close> on an integer: decimal digits, a minus sign first when negative.
\<close>

definition digit_char :: "nat \<Rightarrow> char" where
  "digit_char d = ''0123456789'' ! d"

function digits :: "nat \<Rightarrow> string" where
  "digits n = (if n < 10 then [digit_char n] else digits (n div 10) @ [digit_char (n mod 10)])"
  by pat_completeness auto
termination
  by (relation "measure id") auto

declare digits.simps [simp del]

definition str_int :: "int \<Rightarrow> string" where
  "str_int i = (if i < 0 then CHR ''-'' # digits (nat (- i)) else digits (nat i))"

text \<open>\<^verbatim>\<open>s.split("-")\<close>: the pieces between the minus signs, empty pieces included.\<close>

fun split_dash :: "string \<Rightarrow> string list" where
  "split_dash [] = [[]]"
| "split_dash (c # cs) =
     (if c = CHR ''-'' then [] # split_dash cs
      else (case split_dash cs of [] \<Rightarrow> [[c]] | w # ws \<Rightarrow> (c # w) # ws))"

text \<open>
  \<^verbatim>\<open>int(s)\<close> on a sign followed by decimal digits; anything else is a \<^verbatim>\<open>ValueError\<close>. (Python
  also accepts blanks around the number and underscores between digits; no piece of a
  formatted date has either.)
\<close>

definition digit_val :: "char \<Rightarrow> nat option" where
  "digit_val c =
     (let n = (of_char c :: nat) in if 48 \<le> n \<and> n \<le> 57 then Some (n - 48) else None)"

fun nat_of_digits :: "nat \<Rightarrow> string \<Rightarrow> nat option" where
  "nat_of_digits acc [] = Some acc"
| "nat_of_digits acc (c # cs) =
     (case digit_val c of None \<Rightarrow> None | Some d \<Rightarrow> nat_of_digits (10 * acc + d) cs)"

definition unsigned_of_str :: "string \<Rightarrow> pyerr + int" where
  "unsigned_of_str s =
     (if s = [] then Inl ValueError
      else (case nat_of_digits 0 s of None \<Rightarrow> Inl ValueError | Some n \<Rightarrow> Inr (int n)))"

definition int_of_str :: "string \<Rightarrow> pyerr + int" where
  "int_of_str s =
     (case s of
        [] \<Rightarrow> Inl ValueError
      | c # cs \<Rightarrow>
          if c = CHR ''-'' then bind_r (unsigned_of_str cs) (\<lambda>n. Inr (- n))
          else if c = CHR ''+'' then unsigned_of_str cs
          else unsigned_of_str s)"

text \<open>\<^verbatim>\<open>[f"{year}-01-01", f"{year}-12-30"]\<close>.\<close>

definition date_strings :: "int \<Rightarrow> string \<times> string" where
  "date_strings year = (str_int year @ ''-01-01'', str_int year @ ''-12-30'')"

text \<open>\<^verbatim>\<open>{"year": int(year_s), "month": int(month_s), "day": int(day_s)}\<close>.\<close>

definition date_dict :: "string \<Rightarrow> string \<Rightarrow> string \<Rightarrow> pyerr + json" where
  "date_dict year_s month_s day_s =
     bind_r (int_of_str year_s) (\<lambda>y.
     bind_r (int_of_str month_s) (\<lambda>m.
     bind_r (int_of_str day_s) (\<lambda>d.
       Inr (JObj [(''year'', JInt y), (''month'', JInt m), (''day'', JInt d)]))))"

text \<open>\<^verbatim>\<open>events.append(x)\<close>: only a list has the method.\<close>

fun list_append :: "json \<Rightarrow> json \<Rightarrow> pyerr + json" where
  "list_append (JArr xs) x = Inr (JArr (xs @ [x]))"
| "list_append j x = Inl AttributeError"

text \<open>The body of \<^verbatim>\<open>for date in dates\<close>; unpacking a list that has not three pieces is a
  \<^verbatim>\<open>ValueError\<close>.\<close>

definition append_auto_fert :: "json \<Rightarrow> string \<times> string \<Rightarrow> pyerr + json" where
  "append_auto_fert events date =
     (case split_dash (fst date) of
        [year_s, month_s, day_s] \<Rightarrow>
          (case split_dash (snd date) of
             [year_e, month_e, day_e] \<Rightarrow>
               bind_r (date_dict year_s month_s day_s) (\<lambda>s.
               bind_r (date_dict year_e month_e day_e) (\<lambda>e.
                 list_append events
                   (JObj [(''_event_type'', JStr ''alt_fertilizer''),
                          (''method'', JStr ''auto-fertilizer''),
                          (''start_date'', s), (''end_date'', e)])))
           | _ \<Rightarrow> Inl ValueError)
      | _ \<Rightarrow> Inl ValueError)"

text \<open>The result is the document that the source writes to \<^verbatim>\<open>json_out\<close>.\<close>

definition generate_autofertilization_event :: "json \<Rightarrow> int \<Rightarrow> int \<Rightarrow> pyerr + json" where
  "generate_autofertilization_event json_data first_year last_year =
     (let dates = map date_strings [first_year..last_year] in
      bind_r (locate events_path json_data) (\<lambda>(p, events).
      bind_r (for_each append_auto_fert dates events) (\<lambda>events'.
        Inr (put_path p json_data events'))))"

text \<open>The event that the claim describes for one year.\<close>

definition auto_fert_event :: "int \<Rightarrow> json" where
  "auto_fert_event year =
     JObj [(''_event_type'', JStr ''alt_fertilizer''),
           (''method'', JStr ''auto-fertilizer''),
           (''start_date'', JObj [(''year'', JInt year), (''month'', JInt 1), (''day'', JInt 1)]),
           (''end_date'', JObj [(''year'', JInt year), (''month'', JInt 12), (''day'', JInt 30)])]"

section \<open>Crop fractions in the Widget Dispatcher\<close>

text \<open>
  The block of \<^verbatim>\<open>display_widgets\<close> that handles \<^verbatim>\<open>frac_grain\<close>, \<^verbatim>\<open>frac_leaf\<close>,
  \<^verbatim>\<open>frac_root\<close> and \<^verbatim>\<open>frac_stem\<close>. The dict \<^verbatim>\<open>fracs\<close> has exactly these four keys: a
  function on them. A Python float operation is the exact operation on the numbers the
  floats denote, followed by rounding to a float; the rounding \<open>rnd\<close> is a parameter, the
  identity for exact arithmetic. Infinities and NaN are left out.
\<close>

datatype frac_key = Frac_grain | Frac_leaf | Frac_root | Frac_stem

definition frac_keys :: "frac_key list" where
  "frac_keys = [Frac_grain, Frac_leaf, Frac_root, Frac_stem]"

text \<open>\<^verbatim>\<open>sum(fracs.values())\<close>: from 0, one addition per value.\<close>

definition sum_fracs :: "(rat \<Rightarrow> rat) \<Rightarrow> (frac_key \<Rightarrow> rat) \<Rightarrow> rat" where
  "sum_fracs rnd fracs = foldl (\<lambda>s key. rnd (s + fracs key)) 0 frac_keys"

text \<open>\<^verbatim>\<open>if total_frac != 1: for key in frac_keys: fracs[key] = fracs[key] / total_frac\<close>;
  a total of 0 makes the first division raise.\<close>

definition normalize_fracs ::
  "(rat \<Rightarrow> rat) \<Rightarrow> (frac_key \<Rightarrow> rat) \<Rightarrow> pyerr + (frac_key \<Rightarrow> rat)" where
  "normalize_fracs rnd fracs =
     (let total_frac = sum_fracs rnd fracs in
      if total_frac \<noteq> 1 then
        (if total_frac = 0 then Inl ZeroDivisionError
         else Inr (foldl (\<lambda>fr key. fr(key := rnd (fr key / total_frac))) fracs frac_keys))
      else Inr fracs)"




text \<open>The sum of the four fractions as numbers.\<close>

definition total_of :: "(frac_key \<Rightarrow> rat) \<Rightarrow> rat" where
  "total_of fracs = fracs Frac_grain + fracs Frac_leaf + fracs Frac_root + fracs Frac_stem"

text \<open>The fractions of the sample record in the source.\<close>

definition sample_fracs :: "frac_key \<Rightarrow> rat" where
  "sample_fracs key =
     (case key of Frac_grain \<Rightarrow> 1/100 | Frac_leaf \<Rightarrow> 27/100 | Frac_root \<Rightarrow> 45/100
      | Frac_stem \<Rightarrow> 27/100)"

subsection \<open>Rounding to a binary64 float\<close>

text \<open>
  A Python float is an IEEE 754 binary64 number, and each operation rounds its exact result
  to the nearest one, ties to even. For a number below the overflow threshold: the result is
  a multiple of \<open>2 ^ (e - 52)\<close>, for the exponent \<open>e\<close> of the number and at least \<open>- 1022\<close>.
\<close>

definition pow2 :: "int \<Rightarrow> rat" where
  "pow2 k = (if 0 \<le> k then 2 ^ nat k else 1 / 2 ^ nat (- k))"

definition round_half_even :: "rat \<Rightarrow> int" where
  "round_half_even q =
     (let f = \<lfloor>q\<rfloor>; r = q - of_int f in
      if r < 1 / 2 then f else if 1 / 2 < r then f + 1 else if even f then f else f + 1)"

text \<open>The number of binary digits of a positive integer.\<close>

function bit_length :: "int \<Rightarrow> int" where
  "bit_length n = (if n \<le> 0 then 0 else bit_length (n div 2) + 1)"
  by pat_completeness auto
termination
  by (relation "measure nat") auto

declare bit_length.simps [simp del]

text \<open>The exponent \<open>e\<close> with \<open>2 ^ e \<le> q < 2 ^ (e + 1)\<close>, for positive \<open>q\<close>: the difference of
  the bit lengths of numerator and denominator, or one less.\<close>

definition exponent_of :: "rat \<Rightarrow> int" where
  "exponent_of q =
     (let n = fst (quotient_of q); d = snd (quotient_of q);
          k = bit_length n - bit_length d
      in if pow2 k \<le> q then k else k - 1)"

definition round_double :: "rat \<Rightarrow> rat" where
  "round_double q =
     (if q = 0 then 0
      else let a = \<bar>q\<bar>; u = pow2 (max (exponent_of a) (- 1022) - 52)
           in sgn q * of_int (round_half_even (a / u)) * u)"

text \<open>Fractions that are floats and sum to \<open>1.375\<close>, and the floats nearest to their
  quotients by \<open>1.375\<close>.\<close>

definition skewed_fracs :: "frac_key \<Rightarrow> rat" where
  "skewed_fracs key =
     (case key of Frac_grain \<Rightarrow> 3/8 | Frac_leaf \<Rightarrow> 15/16 | Frac_root \<Rightarrow> 1/16
      | Frac_stem \<Rightarrow> 0)"

definition skewed_rescaled :: "frac_key \<Rightarrow> rat" where
  "skewed_rescaled key =
     (case key of Frac_grain \<Rightarrow> 1228254443828317/4503599627370496
      | Frac_leaf \<Rightarrow> 6141272219141585/9007199254740992
      | Frac_root \<Rightarrow> 3275345183542179/72057594037927936
      | Frac_stem \<Rightarrow> 0)"

section \<open>Properties of the Event List Extractor\<close>

lemma py_eq_crop: "py_eq t (JStr ''crop'') = (t = JStr ''crop'')"
  by (cases t) (auto split: json.splits)

lemma py_in_snoc: "py_in y (ns @ [x]) = (py_in y ns \<or> py_eq x y)"
  by (auto simp: py_in_def)

lemma extract_step_dict:
  "extract_step s (JObj al) = Inr
     (if typed (JObj al) then
        (if key_seen s (JObj al) then s\<lparr>data_full := data_full s @ [JObj al]\<rparr>
         else if is_crop (JObj al)
           then s\<lparr>crop_names := crop_names s @ [cname (JObj al)], data := data s @ [JObj al],
                   data_full := data_full s @ [JObj al]\<rparr>
           else s\<lparr>other_events := other_events s @ [etype (JObj al)], data := data s @ [JObj al],
                   data_full := data_full s @ [JObj al]\<rparr>)
      else s)"
  by (simp add: extract_step_def bind_r_def typed_def etype_def cname_def is_crop_def
      key_seen_def py_eq_crop)

lemma extract_step_nondict:
  "\<forall>al. e \<noteq> JObj al \<Longrightarrow> extract_step s e = Inl AttributeError"
  by (cases e) (simp_all add: extract_step_def bind_r_def)

text \<open>The loop invariant, from any starting state.\<close>

lemma for_each_extract:
  "for_each extract_step evs s0 = Inr s \<Longrightarrow>
     data_full s = data_full s0 @ filter typed evs \<and>
     crop_names s = crop_names s0 @
        first_seen_by py_eq
          (filter (\<lambda>n. \<not> py_in n (crop_names s0)) (map cname (filter is_crop evs))) \<and>
     other_events s = other_events s0 @
        first_seen_by py_eq
          (filter (\<lambda>n. \<not> py_in n (other_events s0)) (map etype (filter is_other evs))) \<and>
     data s = data s0 @
        first_seen_by same_key (filter (\<lambda>e. typed e \<and> \<not> key_seen s0 e) evs)"
proof (induction evs arbitrary: s0)
  case Nil
  then show ?case by simp
next
  case (Cons e evs)
  show ?case
  proof (cases "\<exists>al. e = JObj al")
    case False
    then have "extract_step s0 e = Inl AttributeError" by (simp add: extract_step_nondict)
    with Cons.prems show ?thesis by (simp add: bind_r_def)
  next
    case True
    then obtain al where e: "e = JObj al" by blast
    define s1 where "s1 = (if typed e then
        (if key_seen s0 e then s0\<lparr>data_full := data_full s0 @ [e]\<rparr>
         else if is_crop e
           then s0\<lparr>crop_names := crop_names s0 @ [cname e], data := data s0 @ [e],
                   data_full := data_full s0 @ [e]\<rparr>
           else s0\<lparr>other_events := other_events s0 @ [etype e], data := data s0 @ [e],
                   data_full := data_full s0 @ [e]\<rparr>)
      else s0)"
    have step: "extract_step s0 e = Inr s1" unfolding s1_def e by (rule extract_step_dict)
    with Cons.prems have rest: "for_each extract_step evs s1 = Inr s" by (simp add: bind_r_def)
    note IH = Cons.IH[OF rest]
    have crop_typed: "\<And>x. is_crop x \<Longrightarrow> typed x" by (simp add: is_crop_def typed_def)
    show ?thesis
    proof (cases "typed e")
      case False
      then have "s1 = s0" by (simp add: s1_def)
      moreover have "\<not> is_crop e" "\<not> is_other e"
        using False crop_typed by (auto simp: is_other_def)
      ultimately show ?thesis using IH False by simp
    next
      case t: True
      show ?thesis
      proof (cases "key_seen s0 e")
        case True
        then have s1: "s1 = s0\<lparr>data_full := data_full s0 @ [e]\<rparr>" using t by (simp add: s1_def)
        have ks: "\<And>x. key_seen s1 x = key_seen s0 x" by (simp add: s1 key_seen_def)
        have io: "is_other e = (\<not> is_crop e)" using t by (simp add: is_other_def)
        show ?thesis using IH t True io by (auto simp: s1 ks key_seen_def)
      next
        case ns: False
        show ?thesis
        proof (cases "is_crop e")
          case True
          then have s1: "s1 = s0\<lparr>crop_names := crop_names s0 @ [cname e],
                   data := data s0 @ [e], data_full := data_full s0 @ [e]\<rparr>"
            using t ns by (simp add: s1_def)
          have ks: "\<And>x. key_seen s1 x = (key_seen s0 x \<or> same_key e x)"
            using True by (auto simp: s1 key_seen_def same_key_def py_in_snoc)
          have nin: "\<not> py_in (cname e) (crop_names s0)" using ns True by (simp add: key_seen_def)
          have f1: "filter (\<lambda>n. \<not> py_in n (crop_names s1)) (map cname (filter is_crop evs))
               = filter (\<lambda>y. \<not> py_eq (cname e) y)
                   (filter (\<lambda>n. \<not> py_in n (crop_names s0)) (map cname (filter is_crop evs)))"
            by (auto simp: s1 py_in_snoc intro!: filter_cong)
          have f2: "filter (\<lambda>x. typed x \<and> \<not> key_seen s1 x) evs
               = filter (\<lambda>y. \<not> same_key e y) (filter (\<lambda>x. typed x \<and> \<not> key_seen s0 x) evs)"
            by (auto simp: ks intro!: filter_cong)
          have io: "\<not> is_other e" using True by (simp add: is_other_def)
          show ?thesis using IH t True nin ns io unfolding f1 f2
            by (simp add: s1)
        next
          case False
          then have s1: "s1 = s0\<lparr>other_events := other_events s0 @ [etype e],
                   data := data s0 @ [e], data_full := data_full s0 @ [e]\<rparr>"
            using t ns by (simp add: s1_def)
          have ks: "\<And>x. key_seen s1 x = (key_seen s0 x \<or> same_key e x)"
            using False by (auto simp: s1 key_seen_def same_key_def py_in_snoc)
          have nin: "\<not> py_in (etype e) (other_events s0)"
            using ns False by (simp add: key_seen_def)
          have f1: "filter (\<lambda>n. \<not> py_in n (other_events s1)) (map etype (filter is_other evs))
               = filter (\<lambda>y. \<not> py_eq (etype e) y)
                   (filter (\<lambda>n. \<not> py_in n (other_events s0)) (map etype (filter is_other evs)))"
            by (auto simp: s1 py_in_snoc intro!: filter_cong)
          have f2: "filter (\<lambda>x. typed x \<and> \<not> key_seen s1 x) evs
               = filter (\<lambda>y. \<not> same_key e y) (filter (\<lambda>x. typed x \<and> \<not> key_seen s0 x) evs)"
            by (auto simp: ks intro!: filter_cong)
          have io: "is_other e" using t False by (simp add: is_other_def)
          show ?thesis using IH t False nin ns io unfolding f1 f2
            by (simp add: s1)
        qed
      qed
    qed
  qed
qed

text \<open>\<^verbatim>\<open>dict.fromkeys\<close> changes nothing on a list that is already free of duplicates; it
  raises on an unhashable entry.\<close>

lemma fromkeys_first_seen:
  "\<forall>y \<in> set ys. \<not> py_in y seen \<Longrightarrow>
   fromkeys seen (first_seen_by py_eq ys) =
     (if \<forall>x \<in> set (first_seen_by py_eq ys). hashable x
      then Inr (seen @ first_seen_by py_eq ys) else Inl TypeError)"
proof (induction ys arbitrary: seen rule: length_induct)
  case (1 ys)
  show ?case
  proof (cases ys)
    case Nil then show ?thesis by simp
  next
    case (Cons x zs)
    let ?r = "filter (\<lambda>y. \<not> py_eq x y) zs"
    have len: "length ?r < length ys" using Cons by (simp add: le_imp_less_Suc)
    have nin: "\<forall>y \<in> set ?r. \<not> py_in y (seen @ [x])"
      using 1(2) Cons by (auto simp: py_in_snoc)
    have IH: "fromkeys (seen @ [x]) (first_seen_by py_eq ?r) =
     (if \<forall>x \<in> set (first_seen_by py_eq ?r). hashable x
      then Inr ((seen @ [x]) @ first_seen_by py_eq ?r) else Inl TypeError)"
      using 1(1) len nin by blast
    have "\<not> py_in x seen" using 1(2) Cons by simp
    then show ?thesis using Cons IH by simp
  qed
qed

lemma extract_events_run:
  "extract_events (JArr evs) = Inr (d, cn, oe, full) \<Longrightarrow>
   \<exists>s. for_each extract_step evs
          \<lparr>crop_names = [], data = [], data_full = [], other_events = []\<rparr> = Inr s
      \<and> fromkeys [] (crop_names s) = Inr cn \<and> fromkeys [] (other_events s) = Inr oe
      \<and> d = data s \<and> full = data_full s"
  by (auto simp: extract_events_def bind_r_def split: sum.splits)

lemma extract_events_spec:
  assumes "extract_events (JArr evs) = Inr (d, cn, oe, full)"
  shows "cn = first_seen_by py_eq (map cname (filter is_crop evs)) \<and>
         oe = first_seen_by py_eq (map etype (filter is_other evs)) \<and>
         d = first_seen_by same_key (filter typed evs) \<and>
         full = filter typed evs"
proof -
  from extract_events_run[OF assms] obtain s where
    fe: "for_each extract_step evs
           \<lparr>crop_names = [], data = [], data_full = [], other_events = []\<rparr> = Inr s"
    and k1: "fromkeys [] (crop_names s) = Inr cn"
    and k2: "fromkeys [] (other_events s) = Inr oe"
    and d: "d = data s" and f: "full = data_full s" by blast
  from for_each_extract[OF fe] have
    1: "data_full s = filter typed evs" and
    2: "crop_names s = first_seen_by py_eq (map cname (filter is_crop evs))" and
    3: "other_events s = first_seen_by py_eq (map etype (filter is_other evs))" and
    4: "data s = first_seen_by same_key (filter typed evs)"
    by (simp_all add: py_in_def key_seen_def)
  have "cn = crop_names s" using k1 unfolding 2
    by (subst (asm) fromkeys_first_seen) (auto simp: py_in_def split: if_splits)
  moreover have "oe = other_events s" using k2 unfolding 3
    by (subst (asm) fromkeys_first_seen) (auto simp: py_in_def split: if_splits)
  ultimately show ?thesis using 1 2 3 4 d f by simp
qed

lemma input_config_list_found:
  "find_events j = Inr ev \<Longrightarrow> input_config_list j = extract_events ev"
  by (simp add: input_config_list_def bind_r_def)

lemma find_events_cases:
  "find_events j = (case wrapped_events j of Inr ev \<Rightarrow> Inr ev | Inl e \<Rightarrow> unwrapped_events j)"
  by (simp add: find_events_def locate_def wrapped_events_def unwrapped_events_def bind_r_def
      split: sum.splits)

lemma find_events_doc_of: "find_events (doc_of ev) = Inr ev"
  by (simp add: find_events_cases wrapped_events_def unwrapped_events_def events_path_def
      doc_of_def bind_r_def)

lemma sample_run:
  "input_config_list (doc_of (JArr [crop_A, irrigation, untyped_record, crop_A2, crop_B, irrigation2]))
     = Inr ([crop_A, irrigation, crop_B], [JStr ''A'', JStr ''B''], [JStr ''autoirrigation''],
            [crop_A, irrigation, crop_A2, crop_B, irrigation2])"
  by (simp add: input_config_list_found[OF find_events_doc_of] extract_events_def bind_r_def
      extract_step_def py_in_def crop_A_def crop_A2_def crop_B_def irrigation_def irrigation2_def
      untyped_record_def)

text \<open>
  C4. On every events list the extractor returns the crop names of the crop records, first
  seen first and each once; the types of the other typed records, first seen first and each
  once; and as filtered list the typed records of the source with every record dropped whose
  crop name (for a crop) or type (for another record) an earlier kept record already has.
  A record counts as typed when its \<^verbatim>\<open>_event_type\<close> is present and truthy.
\<close>

theorem extractor_first_occurrences:
  assumes "find_events j = Inr (JArr evs)"
    and "input_config_list j = Inr (d, cn, oe, full)"
  shows "cn = first_seen_by py_eq (map cname (filter is_crop evs)) \<and>
         oe = first_seen_by py_eq (map etype (filter is_other evs)) \<and>
         d = first_seen_by same_key (filter typed evs)"
  using extract_events_spec[of evs d cn oe full] assms
  by (simp add: input_config_list_found)

theorem extractor_first_occurrences_witness:
  "find_events (doc_of (JArr [crop_A, irrigation, untyped_record, crop_A2, crop_B, irrigation2]))
     = Inr (JArr [crop_A, irrigation, untyped_record, crop_A2, crop_B, irrigation2]) \<and>
   input_config_list (doc_of (JArr [crop_A, irrigation, untyped_record, crop_A2, crop_B, irrigation2]))
     = Inr ([crop_A, irrigation, crop_B], [JStr ''A'', JStr ''B''], [JStr ''autoirrigation''],
            [crop_A, irrigation, crop_A2, crop_B, irrigation2]) \<and>
   [JStr ''A'', JStr ''B''] = first_seen_by py_eq (map cname (filter is_crop
      [crop_A, irrigation, untyped_record, crop_A2, crop_B, irrigation2])) \<and>
   [JStr ''autoirrigation''] = first_seen_by py_eq (map etype (filter is_other
      [crop_A, irrigation, untyped_record, crop_A2, crop_B, irrigation2])) \<and>
   [crop_A, irrigation, crop_B] = first_seen_by same_key (filter typed
      [crop_A, irrigation, untyped_record, crop_A2, crop_B, irrigation2])"
  using extractor_first_occurrences[OF find_events_doc_of sample_run] find_events_doc_of sample_run
  by simp

text \<open>
  C5, as stated, fails: a record without \<^verbatim>\<open>_event_type\<close> is in the source list and not in
  the full list that is returned.
\<close>

theorem full_list_counterexample:
  "find_events (doc_of (JArr [crop_A, untyped_record])) = Inr (JArr [crop_A, untyped_record]) \<and>
   input_config_list (doc_of (JArr [crop_A, untyped_record]))
     = Inr ([crop_A], [JStr ''A''], [], [crop_A]) \<and>
   [crop_A] \<noteq> [crop_A, untyped_record]"
  by (simp add: input_config_list_found[OF find_events_doc_of] find_events_doc_of
      extract_events_def bind_r_def extract_step_def py_in_def crop_A_def untyped_record_def)

text \<open>
  C5, amended. The full list holds every record of the source list whose \<^verbatim>\<open>_event_type\<close> is
  present and truthy, duplicates of a crop name or of a type included, in source order; the
  records without a type are left out.
\<close>

theorem full_list_typed_records:
  assumes "find_events j = Inr (JArr evs)"
    and "input_config_list j = Inr (d, cn, oe, full)"
  shows "full = filter typed evs"
  using extract_events_spec[of evs d cn oe full] assms
  by (simp add: input_config_list_found)

theorem full_list_typed_records_witness:
  "find_events (doc_of (JArr [crop_A, irrigation, untyped_record, crop_A2, crop_B, irrigation2]))
     = Inr (JArr [crop_A, irrigation, untyped_record, crop_A2, crop_B, irrigation2]) \<and>
   input_config_list (doc_of (JArr [crop_A, irrigation, untyped_record, crop_A2, crop_B, irrigation2]))
     = Inr ([crop_A, irrigation, crop_B], [JStr ''A'', JStr ''B''], [JStr ''autoirrigation''],
            [crop_A, irrigation, crop_A2, crop_B, irrigation2]) \<and>
   [crop_A, irrigation, crop_A2, crop_B, irrigation2] = filter typed
      [crop_A, irrigation, untyped_record, crop_A2, crop_B, irrigation2]"
  using full_list_typed_records[OF find_events_doc_of sample_run] find_events_doc_of sample_run
  by simp

section \<open>The two document shapes\<close>






section \<open>Reading and writing along a path\<close>

lemma get_path_str: "p \<noteq> [] \<Longrightarrow> last p = Key k \<Longrightarrow> \<exists>e. get_path p (JStr s) = Inl e"
proof (induction p arbitrary: s)
  case Nil then show ?case by simp
next
  case (Cons a p)
  show ?case
  proof (cases a)
    case (Key x) then show ?thesis by (simp add: bind_r_def)
  next
    case Idx0
    show ?thesis
    proof (cases s)
      case Nil then show ?thesis using Idx0 by (simp add: bind_r_def)
    next
      case (Cons c cs)
      have "p \<noteq> []" using Cons.prems Idx0 by auto
      moreover have "last p = Key k" using Cons.prems \<open>p \<noteq> []\<close> by simp
      ultimately obtain e where "get_path p (JStr [c]) = Inl e" using Cons.IH by blast
      then show ?thesis using Idx0 Cons by (simp add: bind_r_def)
    qed
  qed
qed

lemma get_put: "get_path p j = Inr old \<Longrightarrow> ends_key p \<Longrightarrow> get_path p (put_path p j v) = Inr v"
proof (induction p arbitrary: j)
  case Nil then show ?case by simp
next
  case (Cons a p)
  have ek: "ends_key p" using Cons.prems(2) by (auto simp: ends_key_def split: if_splits)
  show ?case
  proof (cases a)
    case (Key k)
    from Cons.prems(1) Key obtain al x where j: "j = JObj al" and x: "map_of al k = Some x"
      and g: "get_path p x = Inr old"
      by (cases j) (auto simp: bind_r_def split: option.splits)
    have "get_path p (put_path p x v) = Inr v" using Cons.IH[OF g ek] .
    then show ?thesis using Key j x by (simp add: bind_r_def update_conv')
  next
    case Idx0
    show ?thesis
    proof (cases j)
      case (JArr xs)
      with Cons.prems(1) Idx0 obtain x ys where xs: "xs = x # ys" and g: "get_path p x = Inr old"
        by (cases xs) (auto simp: bind_r_def)
      show ?thesis using Cons.IH[OF g ek] Idx0 JArr xs by (simp add: bind_r_def)
    next
      case (JStr s)
      with Cons.prems(1) Idx0 obtain c cs where s: "s = c # cs"
        and g: "get_path p (JStr [c]) = Inr old"
        by (cases s) (auto simp: bind_r_def)
      have "p \<noteq> []" using Cons.prems(2) Idx0 by (auto simp: ends_key_def)
      moreover then obtain k where "last p = Key k" using ek by (auto simp: ends_key_def)
      ultimately obtain e where "get_path p (JStr [c]) = Inl e" using get_path_str by blast
      with g show ?thesis by simp
    qed (use Cons.prems(1) Idx0 in \<open>auto simp: bind_r_def\<close>)
  qed
qed


lemma put_get: "get_path p j = Inr old \<Longrightarrow> ends_key p \<Longrightarrow> put_path p j old = j"
proof (induction p arbitrary: j)
  case Nil then show ?case by simp
next
  case (Cons a p)
  have ek: "ends_key p" using Cons.prems(2) by (auto simp: ends_key_def split: if_splits)
  show ?case
  proof (cases a)
    case (Key k)
    from Cons.prems(1) Key obtain al x where j: "j = JObj al" and x: "map_of al k = Some x"
      and g: "get_path p x = Inr old"
      by (cases j) (auto simp: bind_r_def split: option.splits)
    show ?thesis using Cons.IH[OF g ek] Key j x by (simp add: update_triv)
  next
    case Idx0
    show ?thesis
    proof (cases j)
      case (JArr xs)
      with Cons.prems(1) Idx0 obtain x ys where xs: "xs = x # ys" and g: "get_path p x = Inr old"
        by (cases xs) (auto simp: bind_r_def)
      show ?thesis using Cons.IH[OF g ek] Idx0 JArr xs by simp
    qed (use Idx0 in auto)
  qed
qed

lemma locate_put:
  assumes "locate (Key k # p) j = Inr (q, old)" and "ends_key (Key k # p)"
  shows "locate (Key k # p) (put_path q j v) = Inr (q, v)"
proof (cases "get_path (Idx0 # Key k # p) j")
  case (Inr x)
  then have q: "q = Idx0 # Key k # p" and "x = old" using assms(1) by (auto simp: locate_def)
  have "ends_key (Idx0 # Key k # p)" using assms(2) by (auto simp: ends_key_def)
  then have "get_path (Idx0 # Key k # p) (put_path q j v) = Inr v"
    using get_put[OF Inr] q by simp
  then show ?thesis by (simp add: locate_def q)
next
  case (Inl e)
  then have q: "q = Key k # p" and g: "get_path (Key k # p) j = Inr old"
    using assms(1) by (auto simp: locate_def bind_r_def split: sum.splits)
  then obtain al where j: "j = JObj al" by (cases j) (auto simp: bind_r_def)
  have "\<exists>al'. put_path q j v = JObj al'" using j q by (simp split: option.splits)
  then have "\<exists>e. get_path (Idx0 # Key k # p) (put_path q j v) = Inl e"
    by (auto simp: bind_r_def)
  moreover have "get_path (Key k # p) (put_path q j v) = Inr v"
    using get_put[OF g assms(2)] q by simp
  ultimately show ?thesis using q by (auto simp: locate_def bind_r_def)
qed

lemma soil_loop:
  "set ks \<subseteq> fst ` set al \<Longrightarrow>
   map fst (foldl (soil_step sd) al ks) = map fst al \<and>
   (\<forall>k. map_of (foldl (soil_step sd) al ks) k =
      (if k \<in> set ks then (case map_of sd k of Some v \<Rightarrow> Some v | None \<Rightarrow> map_of al k)
       else map_of al k))"
proof (induction ks arbitrary: al)
  case Nil then show ?case by simp
next
  case (Cons a ks)
  let ?al1 = "soil_step sd al a"
  have keys: "map fst ?al1 = map fst al"
    using Cons.prems by (auto simp: soil_step_def update_keys split: option.splits)
  then have sub: "set ks \<subseteq> fst ` set ?al1" using Cons.prems
    by (metis list.set_map set_subset_Cons subset_trans)
  have m1: "\<And>k. map_of ?al1 k = (if k = a then (case map_of sd k of Some v \<Rightarrow> Some v | None \<Rightarrow> map_of al k) else map_of al k)"
    by (auto simp: soil_step_def update_conv' split: option.splits)
  show ?case using Cons.IH[OF sub] keys m1 by (auto split: option.splits)
qed


section \<open>Properties of the soil merge\<close>

lemma ends_key_soil: "ends_key soil_path"
  by (simp add: ends_key_def soil_path_def)

lemma soil_run:
  assumes "find_soil j = Inr (JObj al)" and "soil_config_replacement sd j = Inr j'"
  shows "find_soil j' = Inr (JObj (foldl (soil_step sd) al (map fst al)))"
proof -
  from assms(1) obtain q where l: "locate soil_path j = Inr (q, JObj al)"
    by (auto simp: find_soil_def bind_r_def split: sum.splits)
  with assms(2) have j': "j' = put_path q j (JObj (foldl (soil_step sd) al (map fst al)))"
    by (simp add: soil_config_replacement_def bind_r_def)
  have "locate soil_path j' = Inr (q, JObj (foldl (soil_step sd) al (map fst al)))"
    unfolding j' using locate_put[of "''sites''" "tl soil_path" j q "JObj al"] l ends_key_soil
    by (simp add: soil_path_def)
  then show ?thesis by (simp add: find_soil_def bind_r_def)
qed

text \<open>
  C9. The soil merge keeps the keys of the soil record and their order. A key of the record
  that the overlay has takes the overlay's value; a key that the overlay lacks keeps its
  value; a key that only the overlay has is not added.
\<close>

theorem soil_merge_overwrites_shared_keys:
  assumes "find_soil j = Inr (JObj al)" and "soil_config_replacement sd j = Inr j'"
  shows "\<exists>al'. find_soil j' = Inr (JObj al') \<and> map fst al' = map fst al \<and>
           (\<forall>k v. k \<in> fst ` set al \<and> map_of sd k = Some v \<longrightarrow> map_of al' k = Some v) \<and>
           (\<forall>k. map_of sd k = None \<longrightarrow> map_of al' k = map_of al k) \<and>
           (\<forall>k. k \<notin> fst ` set al \<longrightarrow> map_of al' k = None)"
proof -
  let ?al' = "foldl (soil_step sd) al (map fst al)"
  have l: "map fst ?al' = map fst al \<and>
   (\<forall>k. map_of ?al' k =
      (if k \<in> set (map fst al) then (case map_of sd k of Some v \<Rightarrow> Some v | None \<Rightarrow> map_of al k)
       else map_of al k))"
    by (rule soil_loop) simp
  have none: "\<And>k. k \<notin> fst ` set al \<Longrightarrow> map_of al k = None"
    by (simp add: map_of_eq_None_iff)
  show ?thesis
    using soil_run[OF assms] l none by (intro exI[of _ ?al']) (auto split: option.splits)
qed

theorem soil_merge_overwrites_shared_keys_witness:
  "find_soil (soil_doc (JObj [(''bulk_density'', JFloat 1.4), (''clay'', JFloat 0.19)]))
     = Inr (JObj [(''bulk_density'', JFloat 1.4), (''clay'', JFloat 0.19)]) \<and>
   soil_config_replacement [(''clay'', JFloat 0.3), (''ph'', JInt 7)]
       (soil_doc (JObj [(''bulk_density'', JFloat 1.4), (''clay'', JFloat 0.19)]))
     = Inr (soil_doc (JObj [(''bulk_density'', JFloat 1.4), (''clay'', JFloat 0.3)])) \<and>
   (\<exists>al'. find_soil (soil_doc (JObj [(''bulk_density'', JFloat 1.4), (''clay'', JFloat 0.3)]))
            = Inr (JObj al') \<and>
      map fst al' = [''bulk_density'', ''clay''] \<and>
      map_of al' ''clay'' = Some (JFloat 0.3) \<and>
      map_of al' ''bulk_density'' = Some (JFloat 1.4) \<and>
      map_of al' ''ph'' = None)"
proof -
  let ?al = "[(''bulk_density'', JFloat 1.4), (''clay'', JFloat 0.19)]"
  let ?sd = "[(''clay'', JFloat 0.3), (''ph'', JInt 7)]"
  let ?j' = "soil_doc (JObj [(''bulk_density'', JFloat 1.4), (''clay'', JFloat 0.3)])"
  have f: "find_soil (soil_doc (JObj ?al)) = Inr (JObj ?al)"
    by (simp add: find_soil_def locate_def soil_path_def soil_doc_def bind_r_def)
  have r: "soil_config_replacement ?sd (soil_doc (JObj ?al)) = Inr ?j'"
    by (simp add: soil_config_replacement_def locate_def soil_path_def soil_doc_def bind_r_def
        soil_step_def)
  from soil_merge_overwrites_shared_keys[OF f r] obtain al' where
    a: "find_soil ?j' = Inr (JObj al')" "map fst al' = map fst ?al"
    and b: "\<forall>k v. k \<in> fst ` set ?al \<and> map_of ?sd k = Some v \<longrightarrow> map_of al' k = Some v"
    and c: "\<forall>k. map_of ?sd k = None \<longrightarrow> map_of al' k = map_of ?al k"
    and d: "\<forall>k. k \<notin> fst ` set ?al \<longrightarrow> map_of al' k = None"
    by blast
  have "map_of al' ''clay'' = Some (JFloat 0.3)" using b by simp
  moreover have "map_of al' ''bulk_density'' = Some (JFloat 1.4)" using c by simp
  moreover have "map_of al' ''ph'' = None" using d by simp
  ultimately show ?thesis using f r a by auto
qed

section \<open>Python equality is an equivalence on well-formed values\<close>







section \<open>Writing items into a record\<close>











section \<open>The crop loop\<close>



lemma wf_json_lookup: "wf_json (JObj al) \<Longrightarrow> map_of al k = Some v \<Longrightarrow> wf_json v"
  by (auto dest: map_of_SomeD)











section \<open>The merge of one record\<close>












section \<open>Merging twice\<close>







section \<open>The merge of the events list and of the document\<close>





lemma ends_key_events: "ends_key events_path"
  by (simp add: ends_key_def events_path_def)

lemma locate_events_put:
  "locate events_path j = Inr (q, old) \<Longrightarrow> locate events_path (put_path q j v) = Inr (q, v)"
  using locate_put[of "''sites''" "tl events_path" j q old v] ends_key_events
  by (simp add: events_path_def)









section \<open>Properties of the Auto-Fertilization Generator\<close>

lemma digit_cases:
  assumes "d < (10::nat)"
  obtains "d = 0" | "d = 1" | "d = 2" | "d = 3" | "d = 4" | "d = 5" | "d = 6" | "d = 7"
    | "d = 8" | "d = 9"
  using assms by atomize_elim arith

lemma digit_val_char: "d < 10 \<Longrightarrow> digit_val (digit_char d) = Some d"
  by (erule digit_cases) (simp_all add: digit_char_def digit_val_def)

lemma digit_char_no_sign: "d < 10 \<Longrightarrow> digit_char d \<noteq> CHR ''-'' \<and> digit_char d \<noteq> CHR ''+''"
  by (erule digit_cases) (simp_all add: digit_char_def)

lemma digits_no_sign: "CHR ''-'' \<notin> set (digits n) \<and> CHR ''+'' \<notin> set (digits n)"
proof (induction n rule: digits.induct)
  case (1 n)
  show ?case
  proof (cases "n < 10")
    case True
    then show ?thesis using digit_char_no_sign[of n] by (subst (1 2) digits.simps) auto
  next
    case False
    have "n mod 10 < 10" by simp
    then show ?thesis using 1 False digit_char_no_sign[of "n mod 10"]
      by (subst (1 2) digits.simps) auto
  qed
qed

lemma digits_nonempty: "digits n \<noteq> []"
  by (subst digits.simps) simp

lemma nat_of_digits_append:
  "nat_of_digits acc (xs @ ys) =
     (case nat_of_digits acc xs of None \<Rightarrow> None | Some a \<Rightarrow> nat_of_digits a ys)"
  by (induction xs arbitrary: acc) (auto split: option.splits)

lemma nat_of_digits_digits: "nat_of_digits 0 (digits n) = Some n"
proof (induction n rule: digits.induct)
  case (1 n)
  show ?case
  proof (cases "n < 10")
    case True
    then show ?thesis using digit_val_char[of n] by (subst digits.simps) simp
  next
    case False
    have "n mod 10 < 10" by simp
    from digit_val_char[OF this] have "nat_of_digits (n div 10) [digit_char (n mod 10)] = Some n"
      by simp
    then show ?thesis using 1 False
      by (subst digits.simps) (simp add: nat_of_digits_append)
  qed
qed

text \<open>Text and back: \<^verbatim>\<open>int(str(y))\<close> is \<open>y\<close> for a year that is not negative.\<close>

lemma int_of_str_digits: "int_of_str (digits n) = Inr (int n)"
proof -
  obtain c cs where d: "digits n = c # cs" using digits_nonempty[of n] by (cases "digits n") auto
  have "c \<noteq> CHR ''-''" "c \<noteq> CHR ''+''" using digits_no_sign[of n] d by auto
  then have "int_of_str (digits n) = unsigned_of_str (digits n)"
    using d by (simp add: int_of_str_def)
  then show ?thesis using digits_nonempty[of n] by (simp add: unsigned_of_str_def nat_of_digits_digits)
qed

lemma split_dash_prefix:
  "CHR ''-'' \<notin> set xs \<Longrightarrow> split_dash (xs @ CHR ''-'' # rest) = xs # split_dash rest"
  by (induction xs) auto

lemma split_date:
  "split_dash (digits n @ ''-01-01'') = [digits n, ''01'', ''01'']"
  "split_dash (digits n @ ''-12-30'') = [digits n, ''12'', ''30'']"
  using split_dash_prefix[of "digits n" "''01-01''"] split_dash_prefix[of "digits n" "''12-30''"]
    digits_no_sign[of n]
  by simp_all

lemma append_auto_fert_year:
  assumes "0 \<le> y"
  shows "append_auto_fert (JArr xs) (date_strings y) = Inr (JArr (xs @ [auto_fert_event y]))"
proof -
  have s: "str_int y = digits (nat y)" using assms by (simp add: str_int_def)
  have i: "int_of_str (digits (nat y)) = Inr y" using assms by (simp add: int_of_str_digits)
  have c: "int_of_str ''01'' = Inr 1" "int_of_str ''12'' = Inr 12" "int_of_str ''30'' = Inr 30"
    by (simp_all add: int_of_str_def unsigned_of_str_def digit_val_def)
  show ?thesis
    by (simp add: append_auto_fert_def date_strings_def s split_date date_dict_def i c bind_r_def
        auto_fert_event_def)
qed

lemma append_auto_fert_years:
  "\<forall>y \<in> set ys. 0 \<le> y \<Longrightarrow>
   for_each append_auto_fert (map date_strings ys) (JArr xs) = Inr (JArr (xs @ map auto_fert_event ys))"
  by (induction ys arbitrary: xs) (simp_all add: append_auto_fert_year bind_r_def)

text \<open>
  C3, as stated, fails for a negative year: \<^verbatim>\<open>"-1-01-01".split("-")\<close> has four pieces, the
  unpacking into three names raises, and nothing is appended.
\<close>

theorem auto_fert_negative_year_counterexample:
  "generate_autofertilization_event (doc_of (JArr [crop_A])) (- 1) 0 = Inl ValueError"
  by (simp add: generate_autofertilization_event_def locate_def events_path_def doc_of_def
      bind_r_def date_strings_def str_int_def digits.simps digit_char_def append_auto_fert_def
      upto.simps)

text \<open>
  C3, amended. When the first year is not negative, or the range is empty, the generator
  returns, and the events list of its result is the old events list, unchanged, followed by
  one event per year of \<open>[first_year..last_year]\<close> in increasing order of the years: type
  \<^verbatim>\<open>alt_fertilizer\<close>, method \<^verbatim>\<open>auto-fertilizer\<close>, from 1 January to 30 December of the year.
  These are \<open>last_year - first_year + 1\<close> events, none when the range is empty.
\<close>

theorem auto_fert_one_event_per_year:
  assumes "find_events j = Inr (JArr es)"
    and "0 \<le> first_year \<or> last_year < first_year"
  shows "\<exists>j'. generate_autofertilization_event j first_year last_year = Inr j' \<and>
           find_events j' = Inr (JArr (es @ map auto_fert_event [first_year..last_year])) \<and>
           length (map auto_fert_event [first_year..last_year])
             = nat (last_year - first_year + 1)"
proof -
  from assms(1) obtain q where l: "locate events_path j = Inr (q, JArr es)"
    by (auto simp: find_events_def bind_r_def split: sum.splits)
  have "\<forall>y \<in> set [first_year..last_year]. 0 \<le> y" using assms(2) by auto
  then have f: "for_each append_auto_fert (map date_strings [first_year..last_year]) (JArr es)
      = Inr (JArr (es @ map auto_fert_event [first_year..last_year]))"
    by (rule append_auto_fert_years)
  let ?j' = "put_path q j (JArr (es @ map auto_fert_event [first_year..last_year]))"
  have g: "generate_autofertilization_event j first_year last_year = Inr ?j'"
    using l f by (simp add: generate_autofertilization_event_def bind_r_def)
  have "find_events ?j' = Inr (JArr (es @ map auto_fert_event [first_year..last_year]))"
    using locate_events_put[OF l] by (simp add: find_events_def bind_r_def)
  with g show ?thesis by simp
qed

theorem auto_fert_one_event_per_year_witness:
  "find_events (doc_of (JArr [crop_A])) = Inr (JArr [crop_A]) \<and> (0::int) \<le> 2001 \<and>
   generate_autofertilization_event (doc_of (JArr [crop_A])) 2001 2003
     = Inr (doc_of (JArr [crop_A, auto_fert_event 2001, auto_fert_event 2002, auto_fert_event 2003])) \<and>
   find_events (doc_of (JArr [crop_A, auto_fert_event 2001, auto_fert_event 2002, auto_fert_event 2003]))
     = Inr (JArr ([crop_A] @ map auto_fert_event [2001, 2002, 2003])) \<and>
   length (map auto_fert_event [2001..2003]) = 3"
proof -
  have u: "[2001..2003] = [2001, 2002, 2003::int]" by simp
  have r: "generate_autofertilization_event (doc_of (JArr [crop_A])) 2001 2003 =
     Inr (doc_of (JArr [crop_A, auto_fert_event 2001, auto_fert_event 2002, auto_fert_event 2003]))"
    by (simp add: generate_autofertilization_event_def locate_def events_path_def doc_of_def
        bind_r_def date_strings_def str_int_def digits.simps digit_char_def
        append_auto_fert_def date_dict_def int_of_str_def unsigned_of_str_def digit_val_def auto_fert_event_def u)
  from auto_fert_one_event_per_year[OF find_events_doc_of[of "JArr [crop_A]"],
      where first_year = 2001 and last_year = 2003]
  show ?thesis using r u by (simp add: find_events_doc_of)
qed

section \<open>Properties of the crop fractions\<close>

lemma sum_fracs_exact: "sum_fracs (\<lambda>x. x) fracs = total_of fracs"
  by (simp add: sum_fracs_def frac_keys_def total_of_def)

lemma normalize_unit: "sum_fracs rnd fracs = 1 \<Longrightarrow> normalize_fracs rnd fracs = Inr fracs"
  by (simp add: normalize_fracs_def)

lemma frac_fun_eq:
  fixes f g :: "frac_key \<Rightarrow> rat"
  shows "(f = g) = (f Frac_grain = g Frac_grain \<and> f Frac_leaf = g Frac_leaf \<and>
                    f Frac_root = g Frac_root \<and> f Frac_stem = g Frac_stem)"
proof -
  have "(\<forall>x. f x = g x) = (f Frac_grain = g Frac_grain \<and> f Frac_leaf = g Frac_leaf \<and>
                 f Frac_root = g Frac_root \<and> f Frac_stem = g Frac_stem)"
  proof
    assume "\<forall>x. f x = g x"
    then show "f Frac_grain = g Frac_grain \<and> f Frac_leaf = g Frac_leaf \<and>
                 f Frac_root = g Frac_root \<and> f Frac_stem = g Frac_stem" by simp
  next
    assume a: "f Frac_grain = g Frac_grain \<and> f Frac_leaf = g Frac_leaf \<and>
                 f Frac_root = g Frac_root \<and> f Frac_stem = g Frac_stem"
    show "\<forall>x. f x = g x"
    proof
      fix x show "f x = g x" using a by (cases x) simp_all
    qed
  qed
  then show ?thesis by (simp add: fun_eq_iff)
qed




section \<open>Rescaling of the crop fractions\<close>

lemma normalize_rescales:
  assumes "sum_fracs rnd fracs \<noteq> 0" and "sum_fracs rnd fracs \<noteq> 1"
  shows "normalize_fracs rnd fracs = Inr (\<lambda>key. rnd (fracs key / sum_fracs rnd fracs))"
  using assms by (simp add: normalize_fracs_def frac_keys_def Let_def frac_fun_eq)

lemma total_of_divide: "total_of (\<lambda>key. fracs key / t) = total_of fracs / t"
  by (simp add: total_of_def add_divide_distrib)

lemma normalize_exact_sum:
  assumes "total_of fracs \<noteq> 0"
  shows "\<exists>fr. normalize_fracs (\<lambda>x. x) fracs = Inr fr \<and> total_of fr = 1"
proof (cases "total_of fracs = 1")
  case True
  then show ?thesis by (simp add: normalize_unit sum_fracs_exact)
next
  case False
  have n: "normalize_fracs (\<lambda>x. x) fracs = Inr (\<lambda>key. fracs key / total_of fracs)"
    using normalize_rescales[of "\<lambda>x. x" fracs] assms False by (simp add: sum_fracs_exact)
  have "total_of (\<lambda>key. fracs key / total_of fracs) = 1"
    using assms by (simp add: total_of_divide)
  then show ?thesis using n by simp
qed

lemma skewed_sum: "sum_fracs round_double skewed_fracs = 11/8"
  unfolding sum_fracs_def frac_keys_def skewed_fracs_def by code_simp

lemma skewed_quotients:
  "round_double (skewed_fracs Frac_grain / (11/8)) = skewed_rescaled Frac_grain"
  "round_double (skewed_fracs Frac_leaf / (11/8)) = skewed_rescaled Frac_leaf"
  "round_double (skewed_fracs Frac_root / (11/8)) = skewed_rescaled Frac_root"
  "round_double (skewed_fracs Frac_stem / (11/8)) = skewed_rescaled Frac_stem"
  by code_simp+

lemma skewed_are_floats:
  "round_double (skewed_fracs Frac_grain) = skewed_fracs Frac_grain"
  "round_double (skewed_fracs Frac_leaf) = skewed_fracs Frac_leaf"
  "round_double (skewed_fracs Frac_root) = skewed_fracs Frac_root"
  "round_double (skewed_fracs Frac_stem) = skewed_fracs Frac_stem"
  by code_simp+

lemma skewed_rescaled_sum:
  "sum_fracs round_double skewed_rescaled = 9007199254740991/9007199254740992"
  unfolding sum_fracs_def frac_keys_def skewed_rescaled_def by code_simp

lemma skewed_normalized: "normalize_fracs round_double skewed_fracs = Inr skewed_rescaled"
proof -
  have "normalize_fracs round_double skewed_fracs =
          Inr (\<lambda>key. round_double (skewed_fracs key / (11/8)))"
    using normalize_rescales[of round_double skewed_fracs] by (simp only: skewed_sum)
  moreover have "(\<lambda>key. round_double (skewed_fracs key / (11/8))) = skewed_rescaled"
    by (simp only: frac_fun_eq skewed_quotients)
  ultimately show ?thesis by (simp only:)
qed

lemma skewed_total: "total_of skewed_rescaled = 72057594037927931/72057594037927936"
  unfolding total_of_def skewed_rescaled_def by code_simp


text \<open>
  C10, as stated, fails on floats. The fractions \<open>0.375\<close>, \<open>0.9375\<close>, \<open>0.0625\<close> and \<open>0.0\<close> are
  floats and sum to \<open>1.375\<close> without rounding. The block replaces them by the floats nearest
  to \<open>3/11\<close>, \<open>15/22\<close>, \<open>1/22\<close> and by \<open>0\<close>; as numbers these sum to \<open>1 - 5 / 2 ^ 56\<close>, and
  \<^verbatim>\<open>sum\<close> over them gives \<open>1 - 1 / 2 ^ 53\<close>, the float \<^verbatim>\<open>0.9999999999999999\<close>.
\<close>

theorem rescaled_fracs_counterexample:
  "round_double (skewed_fracs Frac_grain) = skewed_fracs Frac_grain \<and>
   round_double (skewed_fracs Frac_leaf) = skewed_fracs Frac_leaf \<and>
   round_double (skewed_fracs Frac_root) = skewed_fracs Frac_root \<and>
   round_double (skewed_fracs Frac_stem) = skewed_fracs Frac_stem \<and>
   sum_fracs round_double skewed_fracs = 11/8 \<and>
   normalize_fracs round_double skewed_fracs = Inr skewed_rescaled \<and>
   total_of skewed_rescaled = 1 - 5 / 2 ^ 56 \<and>
   total_of skewed_rescaled \<noteq> 1 \<and>
   sum_fracs round_double skewed_rescaled = 1 - 1 / 2 ^ 53 \<and>
   sum_fracs round_double skewed_rescaled \<noteq> 1"
proof -
  have t: "total_of skewed_rescaled = 1 - 5 / 2 ^ 56" "total_of skewed_rescaled \<noteq> 1"
    by (simp_all add: skewed_total)
  have s: "sum_fracs round_double skewed_rescaled = 1 - 1 / 2 ^ 53"
    "sum_fracs round_double skewed_rescaled \<noteq> 1"
    by (simp_all add: skewed_rescaled_sum)
  show ?thesis
    using skewed_are_floats skewed_sum skewed_normalized t s by (simp only: simp_thms)
qed

text \<open>
  C10, amended. Whatever the rounding of a float operation: when the total of the four
  fractions is neither 0 nor 1, the block replaces each fraction by its quotient by the
  total, rounded to a float; when the total is 1 it leaves them as they are. In exact
  arithmetic the fractions it presents sum to 1 whenever the total is not 0.
\<close>

theorem fracs_rescaled_by_total:
  "(sum_fracs rnd fracs \<noteq> 0 \<and> sum_fracs rnd fracs \<noteq> 1 \<longrightarrow>
      normalize_fracs rnd fracs = Inr (\<lambda>key. rnd (fracs key / sum_fracs rnd fracs))) \<and>
   (sum_fracs rnd fracs = 1 \<longrightarrow> normalize_fracs rnd fracs = Inr fracs) \<and>
   (total_of fracs \<noteq> 0 \<longrightarrow>
      (\<exists>fr. normalize_fracs (\<lambda>x. x) fracs = Inr fr \<and> total_of fr = 1))"
  using normalize_rescales[of rnd fracs] normalize_unit[of rnd fracs] normalize_exact_sum[of fracs]
  by blast

theorem fracs_rescaled_by_total_witness:
  "sum_fracs (\<lambda>x. x) skewed_fracs = 11/8 \<and>
   normalize_fracs (\<lambda>x. x) skewed_fracs = Inr (\<lambda>key. skewed_fracs key / (11/8)) \<and>
   total_of (\<lambda>key. skewed_fracs key / (11/8)) = 1 \<and>
   sum_fracs (\<lambda>x. x) sample_fracs = 1 \<and>
   normalize_fracs (\<lambda>x. x) sample_fracs = Inr sample_fracs"
proof -
  have s: "sum_fracs (\<lambda>x. x) skewed_fracs = 11/8"
    by (simp add: sum_fracs_exact total_of_def skewed_fracs_def)
  have u: "sum_fracs (\<lambda>x. x) sample_fracs = 1"
    by (simp add: sum_fracs_exact total_of_def sample_fracs_def)
  have t: "total_of (\<lambda>key. skewed_fracs key / (11/8)) = 1"
    by (simp add: total_of_def skewed_fracs_def)
  have a: "normalize_fracs (\<lambda>x. x) skewed_fracs = Inr (\<lambda>key. skewed_fracs key / (11/8))"
    using fracs_rescaled_by_total[of "\<lambda>x. x" skewed_fracs] by (simp only: s) simp
  have b: "normalize_fracs (\<lambda>x. x) sample_fracs = Inr sample_fracs"
    using fracs_rescaled_by_total[of "\<lambda>x. x" sample_fracs] by (simp only: u)
  show ?thesis using s a t u b by (simp only: simp_thms)
qed

end
